theory Spec2Isabelle
  imports Complex_Main
begin

section \<open>Rect geometry (\<open>src/utils/system_utils.py\<close>, lines 280-326)\<close>

text \<open>
  A rectangle is the 4-tuple \<open>(left, top, right, bottom)\<close> of Python integers.
\<close>

type_synonym rect = "int \<times> int \<times> int \<times> int"

text \<open>
  \<open>get_screen_resolution\<close> asks the operating system for the two screen metrics and falls
  back to \<open>(1920, 1080)\<close> when a query raises. The operating system is the parameter
  \<open>metrics\<close>: \<open>metrics i = None\<close> stands for \<open>GetSystemMetrics(i)\<close> raising.
\<close>

definition get_screen_resolution :: "(nat \<Rightarrow> int option) \<Rightarrow> int \<times> int" where
  "get_screen_resolution metrics =
     (case metrics 0 of
        None \<Rightarrow> (1920, 1080)
      | Some width \<Rightarrow>
          (case metrics 1 of
             None \<Rightarrow> (1920, 1080)
           | Some height \<Rightarrow> (width, height)))"

fun is_point_in_rect :: "int \<times> int \<Rightarrow> rect \<Rightarrow> bool" where
  "is_point_in_rect (x, y) (left, top', right, bottom) =
     (left \<le> x \<and> x \<le> right \<and> top' \<le> y \<and> y \<le> bottom)"

fun rect_intersection :: "rect \<Rightarrow> rect \<Rightarrow> rect option" where
  "rect_intersection (l1, t1, r1, b1) (l2, t2, r2, b2) =
     (let left = max l1 l2;
          top' = max t1 t2;
          right = min r1 r2;
          bottom = min b1 b2
      in if left < right \<and> top' < bottom then Some (left, top', right, bottom) else None)"

fun clamp_rect_to_screen :: "(nat \<Rightarrow> int option) \<Rightarrow> rect \<Rightarrow> rect" where
  "clamp_rect_to_screen metrics (left, top', right, bottom) =
     (case get_screen_resolution metrics of
        (screen_width, screen_height) \<Rightarrow>
          (max 0 left, max 0 top', min screen_width right, min screen_height bottom))"

section \<open>PerformanceMonitor (lines 461-492)\<close>

text \<open>
  Time stamps of \<open>time.perf_counter()\<close> and frame times are Python floats; they are modelled
  as real numbers, so rounding is not part of the model. The clock reading is the argument
  \<open>current_time\<close> of \<open>tick\<close>.
\<close>

record PerformanceMonitor =
  window_size :: int
  frame_times :: "real list"
  last_time :: "real option"

definition PerformanceMonitor_init :: "int \<Rightarrow> PerformanceMonitor" where
  "PerformanceMonitor_init ws = \<lparr>window_size = ws, frame_times = [], last_time = None\<rparr>"

text \<open>
  \<open>frame_times.pop(0)\<close> runs right after an \<open>append\<close>, so the list is not empty there and
  the pop is \<open>tl\<close>.
\<close>

definition tick :: "real \<Rightarrow> PerformanceMonitor \<Rightarrow> PerformanceMonitor" where
  "tick current_time pm =
     (case last_time pm of
        None \<Rightarrow> pm\<lparr>last_time := Some current_time\<rparr>
      | Some lt \<Rightarrow>
          (let appended = frame_times pm @ [current_time - lt];
               kept = (if int (length appended) > window_size pm then tl appended else appended)
           in pm\<lparr>frame_times := kept, last_time := Some current_time\<rparr>))"

text \<open>A run of \<open>tick\<close> calls, one per clock reading, oldest first.\<close>

fun ticks :: "real list \<Rightarrow> PerformanceMonitor \<Rightarrow> PerformanceMonitor" where
  "ticks [] pm = pm"
| "ticks (t # ts) pm = ticks ts (tick t pm)"

text \<open>The elapsed times between consecutive clock readings.\<close>

fun gaps :: "real list \<Rightarrow> real list" where
  "gaps (a # b # ts) = (b - a) # gaps (b # ts)"
| "gaps _ = []"

datatype py_error = ZeroDivisionError

text \<open>Python's \<open>/\<close> on floats raises on a zero divisor.\<close>

definition py_truediv :: "real \<Rightarrow> real \<Rightarrow> py_error + real" where
  "py_truediv a b = (if b = 0 then Inl ZeroDivisionError else Inr (a / b))"

definition get_fps :: "PerformanceMonitor \<Rightarrow> py_error + real" where
  "get_fps pm =
     (if frame_times pm = [] then Inr 0
      else (case py_truediv (sum_list (frame_times pm)) (real (length (frame_times pm))) of
              Inl e \<Rightarrow> Inl e
            | Inr avg_frame_time \<Rightarrow>
                (if avg_frame_time > 0 then py_truediv 1 avg_frame_time else Inr 0)))"

definition get_frame_time_ms :: "PerformanceMonitor \<Rightarrow> py_error + real" where
  "get_frame_time_ms pm =
     (if frame_times pm = [] then Inr 0
      else (case py_truediv (sum_list (frame_times pm)) (real (length (frame_times pm))) of
              Inl e \<Rightarrow> Inl e
            | Inr avg_frame_time \<Rightarrow> Inr (avg_frame_time * 1000)))"

text \<open>The arithmetic mean of the stored samples, for stating what the getters return.\<close>

definition mean_frame_time :: "PerformanceMonitor \<Rightarrow> real" where
  "mean_frame_time pm = sum_list (frame_times pm) / real (length (frame_times pm))"

section \<open>ScreenCapture (lines 118-180)\<close>

subsection \<open>The native interface\<close>

text \<open>
  Every call into \<open>win32gui\<close>, \<open>win32ui\<close>, \<open>numpy\<close> and \<open>cv2\<close> made by the class is a
  constructor of \<open>native_call\<close>, with the handles and sizes it is given. A handle is a number.
\<close>

type_synonym handle = nat
type_synonym bbox = "int \<times> int \<times> int \<times> int"

datatype native_call =
    GetDesktopWindow
  | GetWindowDC handle
  | CreateDCFromHandle handle
  | CreateCompatibleDC handle
  | CreateBitmap
  | CreateCompatibleBitmap handle handle int int
  | SelectObject handle handle
  | BitBlt handle int int handle int int
  | GetBitmapBits handle
  | Reshape int int
  | CvtColor
  | DeleteDC handle
  | ReleaseDC handle handle
  | GetHandle handle
  | DeleteObject handle

text \<open>
  The operating system is a recording double: \<open>calls\<close> lists every native call made so far
  with whether it succeeded, and \<open>live\<close> is the set of handles acquired and not yet released.
  Whether a call succeeds or raises is decided by the parameter \<open>ok\<close> from the position of the call
  in the record and the call itself, so that every pattern of native failures is a value of \<open>ok\<close>.
\<close>

record world =
  calls :: "(native_call \<times> bool) list"
  live :: "handle set"

type_synonym fate = "nat \<Rightarrow> native_call \<Rightarrow> bool"

text \<open>
  The four acquiring calls add the handle they return to \<open>live\<close>, the three releasing calls
  remove the handle they are given, and no other call changes \<open>live\<close>.
\<close>

fun effect :: "native_call \<Rightarrow> handle \<Rightarrow> handle set \<Rightarrow> handle set" where
  "effect (GetWindowDC _) h L = insert h L"
| "effect (CreateDCFromHandle _) h L = insert h L"
| "effect (CreateCompatibleDC _) h L = insert h L"
| "effect CreateBitmap h L = insert h L"
| "effect (DeleteDC d) h L = L - {d}"
| "effect (ReleaseDC _ d) h L = L - {d}"
| "effect (DeleteObject d) h L = L - {d}"
| "effect _ h L = L"

text \<open>
  A successful call returns a handle: \<open>GetHandle b\<close> returns the handle of the bitmap \<open>b\<close>,
  every other call a fresh one, the position of the call in the record.
\<close>

fun returned :: "native_call \<Rightarrow> handle \<Rightarrow> handle" where
  "returned (GetHandle b) h = b"
| "returned _ h = h"

datatype 'a result = Return 'a | Raise

definition os_call :: "fate \<Rightarrow> native_call \<Rightarrow> world \<Rightarrow> handle result \<times> world" where
  "os_call ok c w =
     (let n = length (calls w)
      in if ok n c
         then (Return (returned c n), \<lparr>calls = calls w @ [(c, True)], live = effect c n (live w)\<rparr>)
         else (Raise, \<lparr>calls = calls w @ [(c, False)], live = live w\<rparr>))"

subsection \<open>The object and its methods\<close>

record ScreenCapture =
  hwnd :: handle
  hwindc :: "handle option"
  srcdc :: "handle option"
  memdc :: "handle option"
  bmp :: "handle option"
  initialized :: bool
  last_bbox :: "bbox option"
  last_width :: int
  last_height :: int

text \<open>
  A method runs on the object and the operating system and either returns a value or
  raises. Statements are sequenced by \<open>then_do\<close>, which stops at the first raise, and
  \<open>try_except\<close> is Python's \<open>try: ... except Exception: ...\<close>.
\<close>

type_synonym 'a prog = "ScreenCapture \<times> world \<Rightarrow> 'a result \<times> (ScreenCapture \<times> world)"

definition ret :: "'a \<Rightarrow> 'a prog" where
  "ret a st = (Return a, st)"

definition raise :: "'a prog" where
  "raise st = (Raise, st)"

definition then_do :: "'a prog \<Rightarrow> ('a \<Rightarrow> 'b prog) \<Rightarrow> 'b prog" where
  "then_do m f st = (case m st of (Return a, st') \<Rightarrow> f a st' | (Raise, st') \<Rightarrow> (Raise, st'))"

definition try_except :: "'a prog \<Rightarrow> 'a prog \<Rightarrow> 'a prog" where
  "try_except m handler st = (case m st of (Return a, st') \<Rightarrow> (Return a, st') | (Raise, st') \<Rightarrow> handler st')"

definition read :: "(ScreenCapture \<Rightarrow> 'a) \<Rightarrow> 'a prog" where
  "read f st = (Return (f (fst st)), st)"

definition assign :: "(ScreenCapture \<Rightarrow> ScreenCapture) \<Rightarrow> unit prog" where
  "assign f st = (Return (), (f (fst st), snd st))"

definition native :: "fate \<Rightarrow> native_call \<Rightarrow> handle prog" where
  "native ok c st = (case os_call ok c (snd st) of (r, w') \<Rightarrow> (r, (fst st, w')))"

text \<open>\<open>if self.x: release(self.x)\<close>: a field that is \<open>None\<close> is skipped.\<close>

definition if_held :: "handle option \<Rightarrow> (handle \<Rightarrow> handle prog) \<Rightarrow> handle prog" where
  "if_held x release = (case x of None \<Rightarrow> ret 0 | Some h \<Rightarrow> release h)"

definition ScreenCapture_init :: "fate \<Rightarrow> world \<Rightarrow> ScreenCapture result \<times> world" where
  "ScreenCapture_init ok w =
     (case os_call ok GetDesktopWindow w of
        (Return h, w') \<Rightarrow>
          (Return \<lparr>hwnd = h, hwindc = None, srcdc = None, memdc = None, bmp = None,
                   initialized = False, last_bbox = None, last_width = 0, last_height = 0\<rparr>, w')
      | (Raise, w') \<Rightarrow> (Raise, w'))"

text \<open>
  \<open>_cleanup\<close>: the four releases sit in one \<open>try\<close> block whose handler is \<open>pass\<close>; the fields
  keep their handles, only \<open>_initialized\<close> is reset.
\<close>

definition cleanup :: "fate \<Rightarrow> unit prog" where
  "cleanup ok =
     then_do
       (try_except
          (then_do (read srcdc) (\<lambda>sd.
           then_do (if_held sd (\<lambda>d. native ok (DeleteDC d))) (\<lambda>_.
           then_do (read memdc) (\<lambda>md.
           then_do (if_held md (\<lambda>d. native ok (DeleteDC d))) (\<lambda>_.
           then_do (read hwindc) (\<lambda>wd.
           then_do (read hwnd) (\<lambda>hw.
           then_do (if_held wd (\<lambda>d. native ok (ReleaseDC hw d))) (\<lambda>_.
           then_do (read bmp) (\<lambda>bm.
           if_held bm (\<lambda>b. then_do (native ok (GetHandle b)) (\<lambda>g. native ok (DeleteObject g))))))))))))
          (ret 0))
       (\<lambda>_. assign (\<lambda>s. s\<lparr>initialized := False\<rparr>))"

text \<open>\<open>_initialize_dc\<close>: any raise inside the \<open>try\<close> block runs \<open>_cleanup\<close> and returns \<open>False\<close>.\<close>

definition initialize_dc :: "fate \<Rightarrow> int \<Rightarrow> int \<Rightarrow> bool prog" where
  "initialize_dc ok width height =
     try_except
       (then_do (read hwnd) (\<lambda>hw.
        then_do (native ok (GetWindowDC hw)) (\<lambda>wd.
        then_do (assign (\<lambda>s. s\<lparr>hwindc := Some wd\<rparr>)) (\<lambda>_.
        then_do (native ok (CreateDCFromHandle wd)) (\<lambda>sd.
        then_do (assign (\<lambda>s. s\<lparr>srcdc := Some sd\<rparr>)) (\<lambda>_.
        then_do (native ok (CreateCompatibleDC sd)) (\<lambda>md.
        then_do (assign (\<lambda>s. s\<lparr>memdc := Some md\<rparr>)) (\<lambda>_.
        then_do (native ok CreateBitmap) (\<lambda>bm.
        then_do (assign (\<lambda>s. s\<lparr>bmp := Some bm\<rparr>)) (\<lambda>_.
        then_do (native ok (CreateCompatibleBitmap bm sd width height)) (\<lambda>_.
        then_do (native ok (SelectObject md bm)) (\<lambda>_.
        then_do (assign (\<lambda>s. s\<lparr>initialized := True, last_width := width,
                                 last_height := height\<rparr>)) (\<lambda>_.
        ret True)))))))))))))
       (then_do (cleanup ok) (\<lambda>_. ret False))"

text \<open>
  The image returned by \<open>capture\<close> is a \<open>height \<times> width \<times> 3\<close> array; the model keeps its
  shape, \<open>Frame height width\<close>, and not the pixels.
\<close>

datatype frame = Frame int int

text \<open>
  The \<open>try\<close> block of \<open>capture\<close>. A method call on a field that is \<open>None\<close> raises
  (\<open>AttributeError\<close>), and so does \<open>BitBlt\<close> when the source it is given is \<open>None\<close>.
\<close>

definition grab :: "fate \<Rightarrow> int \<Rightarrow> int \<Rightarrow> int \<Rightarrow> int \<Rightarrow> frame option prog" where
  "grab ok left top' width height =
     then_do (read memdc) (\<lambda>md.
     then_do (read srcdc) (\<lambda>sd.
     (case md of
        None \<Rightarrow> raise
      | Some m \<Rightarrow>
          (case sd of
             None \<Rightarrow> raise
           | Some s \<Rightarrow>
               then_do (native ok (BitBlt m width height s left top')) (\<lambda>_.
               then_do (read bmp) (\<lambda>bm.
               (case bm of
                  None \<Rightarrow> raise
                | Some b \<Rightarrow>
                    then_do (native ok (GetBitmapBits b)) (\<lambda>_.
                    then_do (native ok (Reshape height width)) (\<lambda>_.
                    then_do (native ok CvtColor) (\<lambda>_.
                    ret (Some (Frame height width))))))))))))"

definition capture :: "fate \<Rightarrow> bbox option \<Rightarrow> frame option prog" where
  "capture ok box =
     (case box of
        None \<Rightarrow> ret None
      | Some (left, top', right, bottom) \<Rightarrow>
          (let width = right - left; height = bottom - top'
           in if width \<le> 0 \<or> height \<le> 0 then ret None
              else
                then_do (read id) (\<lambda>s.
                then_do (if last_bbox s \<noteq> box \<or> \<not> initialized s \<or>
                            width \<noteq> last_width s \<or> height \<noteq> last_height s
                         then then_do (cleanup ok) (\<lambda>_. assign (\<lambda>s. s\<lparr>last_bbox := box\<rparr>))
                         else ret ()) (\<lambda>_.
                then_do (read initialized) (\<lambda>ini.
                then_do (if \<not> ini then initialize_dc ok width height else ret True) (\<lambda>ready.
                if \<not> ready then ret None
                else try_except (grab ok left top' width height)
                       (then_do (cleanup ok) (\<lambda>_. ret None))))))))"

definition close :: "fate \<Rightarrow> unit prog" where
  "close ok = cleanup ok"

subsection \<open>Runs of calls and what the record shows\<close>

text \<open>A run of method calls on one object, each with its result.\<close>

fun captures :: "fate \<Rightarrow> bbox option list \<Rightarrow> ScreenCapture \<times> world
                  \<Rightarrow> frame option result list \<times> (ScreenCapture \<times> world)" where
  "captures ok [] st = ([], st)"
| "captures ok (box # boxes) st =
     (case capture ok box st of
        (res, st') \<Rightarrow> (case captures ok boxes st' of (ress, st'') \<Rightarrow> (res # ress, st'')))"

fun closes :: "fate \<Rightarrow> nat \<Rightarrow> ScreenCapture \<times> world
                \<Rightarrow> unit result list \<times> (ScreenCapture \<times> world)" where
  "closes ok 0 st = ([], st)"
| "closes ok (Suc k) st =
     (case close ok st of
        (res, st') \<Rightarrow> (case closes ok k st' of (ress, st'') \<Rightarrow> (res # ress, st'')))"

datatype method_call = Capture "bbox option" | Close

fun run :: "fate \<Rightarrow> method_call list \<Rightarrow> ScreenCapture \<times> world \<Rightarrow> ScreenCapture \<times> world" where
  "run ok [] st = st"
| "run ok (Capture box # ms) st = run ok ms (snd (capture ok box st))"
| "run ok (Close # ms) st = run ok ms (snd (close ok st))"

text \<open>
  The release calls that \<open>_cleanup\<close> issues for the fields of an object, in the order of
  its four \<open>if\<close> statements, and the handles the fields hold.
\<close>

definition release_calls :: "ScreenCapture \<Rightarrow> native_call list" where
  "release_calls s =
     (case srcdc s of None \<Rightarrow> [] | Some d \<Rightarrow> [DeleteDC d]) @
     (case memdc s of None \<Rightarrow> [] | Some d \<Rightarrow> [DeleteDC d]) @
     (case hwindc s of None \<Rightarrow> [] | Some d \<Rightarrow> [ReleaseDC (hwnd s) d]) @
     (case bmp s of None \<Rightarrow> [] | Some b \<Rightarrow> [GetHandle b, DeleteObject b])"

definition held :: "ScreenCapture \<Rightarrow> handle set" where
  "held s = set_option (hwindc s) \<union> set_option (srcdc s) \<union> set_option (memdc s)
              \<union> set_option (bmp s)"

text \<open>
  Issuing a list of native calls one after the other, stopping at the first that raises;
  the flag tells whether all of them succeeded.
\<close>

fun attempt :: "fate \<Rightarrow> native_call list \<Rightarrow> world \<Rightarrow> bool \<times> world" where
  "attempt ok [] w = (True, w)"
| "attempt ok (c # cs) w =
     (case os_call ok c w of
        (Return _, w') \<Rightarrow> attempt ok cs w'
      | (Raise, w') \<Rightarrow> (False, w'))"

text \<open>The calls that \<open>_initialize_dc\<close> and the \<open>try\<close> block of \<open>capture\<close> issue when every
  one of them succeeds; \<open>n\<close> is the position of the first in the record.\<close>

definition initialize_calls :: "handle \<Rightarrow> nat \<Rightarrow> int \<Rightarrow> int \<Rightarrow> native_call list" where
  "initialize_calls hw n width height =
     [GetWindowDC hw, CreateDCFromHandle n, CreateCompatibleDC (n + 1), CreateBitmap,
      CreateCompatibleBitmap (n + 3) (n + 1) width height, SelectObject (n + 2) (n + 3)]"

definition grab_calls :: "handle \<Rightarrow> handle \<Rightarrow> handle \<Rightarrow> bbox \<Rightarrow> native_call list" where
  "grab_calls m sd b box =
     (case box of (left, top', right, bottom) \<Rightarrow>
        [BitBlt m (right - left) (bottom - top') sd left top', GetBitmapBits b,
         Reshape (bottom - top') (right - left), CvtColor])"

definition succeeded :: "native_call list \<Rightarrow> (native_call \<times> bool) list" where
  "succeeded cs = map (\<lambda>c. (c, True)) cs"

text \<open>Conditions on the outcome of native calls.\<close>

definition all_succeed :: "fate \<Rightarrow> bool" where
  "all_succeed ok = (\<forall>n c. ok n c)"

fun is_release :: "native_call \<Rightarrow> bool" where
  "is_release (DeleteDC _) = True"
| "is_release (ReleaseDC _ _) = True"
| "is_release (GetHandle _) = True"
| "is_release (DeleteObject _) = True"
| "is_release _ = False"

definition releases_succeed :: "fate \<Rightarrow> bool" where
  "releases_succeed ok = (\<forall>n c. is_release c \<longrightarrow> ok n c)"

text \<open>
  What the record shows: every run of \<open>_initialize_dc\<close> starts with one \<open>GetWindowDC\<close> call
  and nothing else issues one, so their number is the number of runs; the handles acquired,
  in order (a successful acquiring call at position \<open>n\<close> returns the handle \<open>n\<close>); and
  the handles released, in order.
\<close>

fun is_GetWindowDC :: "native_call \<Rightarrow> bool" where
  "is_GetWindowDC (GetWindowDC _) = True"
| "is_GetWindowDC _ = False"

definition init_runs :: "world \<Rightarrow> nat" where
  "init_runs w = length (filter (\<lambda>cr. is_GetWindowDC (fst cr)) (calls w))"

fun acquires :: "native_call \<Rightarrow> bool" where
  "acquires (GetWindowDC _) = True"
| "acquires (CreateDCFromHandle _) = True"
| "acquires (CreateCompatibleDC _) = True"
| "acquires CreateBitmap = True"
| "acquires _ = False"

fun released_by :: "native_call \<Rightarrow> handle list" where
  "released_by (DeleteDC d) = [d]"
| "released_by (ReleaseDC _ d) = [d]"
| "released_by (DeleteObject d) = [d]"
| "released_by _ = []"

fun acquired_order :: "nat \<Rightarrow> (native_call \<times> bool) list \<Rightarrow> handle list" where
  "acquired_order n [] = []"
| "acquired_order n ((c, r) # cs) =
     (if r \<and> acquires c then n # acquired_order (Suc n) cs else acquired_order (Suc n) cs)"

fun released_order :: "(native_call \<times> bool) list \<Rightarrow> handle list" where
  "released_order [] = []"
| "released_order ((c, r) # cs) =
     (if r then released_by c @ released_order cs else released_order cs)"

text \<open>
  The object owns every outstanding handle, and holds none while it is not initialized.
\<close>

definition owned :: "ScreenCapture \<times> world \<Rightarrow> bool" where
  "owned st = (live (snd st) \<subseteq> held (fst st) \<and> (\<not> initialized (fst st) \<longrightarrow> live (snd st) = {}))"

text \<open>
  The object has a session for a box when it is initialized and the stored box and
  dimensions are those of the box: the condition under which \<open>capture\<close> skips
  \<open>_cleanup\<close> and \<open>_initialize_dc\<close>. An initialized object holds its three working handles.
\<close>

definition session_for :: "ScreenCapture \<Rightarrow> bbox \<Rightarrow> bool" where
  "session_for s box =
     (case box of (left, top', right, bottom) \<Rightarrow>
        initialized s \<and> last_bbox s = Some box \<and> last_width s = right - left
        \<and> last_height s = bottom - top')"

definition well_formed :: "ScreenCapture \<Rightarrow> bool" where
  "well_formed s = (initialized s \<longrightarrow> srcdc s \<noteq> None \<and> memdc s \<noteq> None \<and> bmp s \<noteq> None)"


text \<open>
  A new object on a system with no handle outstanding (the only call made is the
  \<open>GetDesktopWindow\<close> of \<open>__init__\<close>), and the same object after one capture of the box
  \<open>(0, 0, 100, 50)\<close> in which every native call succeeded.
\<close>

definition new_capture :: "ScreenCapture \<times> world" where
  "new_capture =
     (\<lparr>hwnd = 0, hwindc = None, srcdc = None, memdc = None, bmp = None, initialized = False,
       last_bbox = None, last_width = 0, last_height = 0\<rparr>,
      \<lparr>calls = [(GetDesktopWindow, True)], live = {}\<rparr>)"

definition first_capture :: "ScreenCapture \<times> world" where
  "first_capture = snd (capture (\<lambda>n c. True) (Some (0, 0, 100, 50)) new_capture)"

section \<open>Properties of the rect geometry\<close>

text \<open>
  Claim C8. For all rectangles \<open>A\<close> and \<open>B\<close>, \<open>rect_intersection A B\<close> equals
  \<open>rect_intersection B A\<close>, and the result is \<open>None\<close> exactly when the overlap region
  \<open>(max l1 l2, max t1 t2, min r1 r2, min b1 b2)\<close> fails \<open>left < right\<close> or \<open>top < bottom\<close>,
  which is exactly when no pixel \<open>(x, y)\<close> lies in both rectangles (each taken half-open).
\<close>

theorem rect_intersection_commutes:
  "rect_intersection (l1, t1, r1, b1) (l2, t2, r2, b2)
     = rect_intersection (l2, t2, r2, b2) (l1, t1, r1, b1)
   \<and> ((rect_intersection (l1, t1, r1, b1) (l2, t2, r2, b2) = None)
        = (\<not> (max l1 l2 < min r1 r2 \<and> max t1 t2 < min b1 b2)))
   \<and> ((rect_intersection (l1, t1, r1, b1) (l2, t2, r2, b2) = None)
        = (\<not> (\<exists>x y. l1 \<le> x \<and> x < r1 \<and> l2 \<le> x \<and> x < r2
                    \<and> t1 \<le> y \<and> y < b1 \<and> t2 \<le> y \<and> y < b2)))"
proof -
  have pixel: "(\<exists>x y. l1 \<le> x \<and> x < r1 \<and> l2 \<le> x \<and> x < r2
                  \<and> t1 \<le> y \<and> y < b1 \<and> t2 \<le> y \<and> y < b2)
      = (max l1 l2 < min r1 r2 \<and> max t1 t2 < min b1 b2)"
  proof
    assume "\<exists>x y. l1 \<le> x \<and> x < r1 \<and> l2 \<le> x \<and> x < r2
                \<and> t1 \<le> y \<and> y < b1 \<and> t2 \<le> y \<and> y < b2"
    then show "max l1 l2 < min r1 r2 \<and> max t1 t2 < min b1 b2" by auto
  next
    assume "max l1 l2 < min r1 r2 \<and> max t1 t2 < min b1 b2"
    then have "l1 \<le> max l1 l2 \<and> max l1 l2 < r1 \<and> l2 \<le> max l1 l2 \<and> max l1 l2 < r2
       \<and> t1 \<le> max t1 t2 \<and> max t1 t2 < b1 \<and> t2 \<le> max t1 t2 \<and> max t1 t2 < b2" by auto
    then show "\<exists>x y. l1 \<le> x \<and> x < r1 \<and> l2 \<le> x \<and> x < r2
                  \<and> t1 \<le> y \<and> y < b1 \<and> t2 \<le> y \<and> y < b2" by blast
  qed
  have comm: "rect_intersection (l1, t1, r1, b1) (l2, t2, r2, b2)
                = rect_intersection (l2, t2, r2, b2) (l1, t1, r1, b1)"
    by (simp add: Let_def max.commute min.commute)
  have none: "(rect_intersection (l1, t1, r1, b1) (l2, t2, r2, b2) = None)
        = (\<not> (max l1 l2 < min r1 r2 \<and> max t1 t2 < min b1 b2))"
    by (simp add: Let_def)
  show ?thesis using comm none pixel by simp
qed

section \<open>Properties of PerformanceMonitor\<close>

subsection \<open>The rolling window of \<open>tick\<close>\<close>

lemma tick_cold: "last_time pm = None \<Longrightarrow> tick t pm = pm\<lparr>last_time := Some t\<rparr>"
  by (simp add: tick_def)

lemma tick_warm:
  "last_time pm = Some lt \<Longrightarrow>
   tick t pm = pm\<lparr>frame_times := (if int (length (frame_times pm)) + 1 > window_size pm
                                   then tl (frame_times pm @ [t - lt])
                                   else frame_times pm @ [t - lt]),
                 last_time := Some t\<rparr>"
  by (simp add: tick_def Let_def)

text \<open>
  From a warm monitor whose window is not over-full, a run of ticks leaves the last
  \<open>N\<close> of the old samples followed by the new gaps.
\<close>

lemma ticks_warm:
  "last_time pm = Some lt \<Longrightarrow> window_size pm = N \<Longrightarrow> 0 \<le> N \<Longrightarrow>
   length (frame_times pm) \<le> nat N \<Longrightarrow>
   frame_times (ticks ts pm)
     = drop (length (frame_times pm @ gaps (lt # ts)) - nat N) (frame_times pm @ gaps (lt # ts))
   \<and> window_size (ticks ts pm) = N
   \<and> last_time (ticks ts pm) = Some (last (lt # ts))"
proof (induction ts arbitrary: pm lt)
  case Nil
  then show ?case by simp
next
  case (Cons t ts)
  let ?F = "frame_times pm"
  let ?pm' = "tick t pm"
  have lt': "last_time ?pm' = Some t" using Cons.prems by (simp add: tick_warm)
  have ws': "window_size ?pm' = N" using Cons.prems by (simp add: tick_warm)
  have over: "(int (length ?F) + 1 > window_size pm) = (\<not> length ?F < nat N)"
    using Cons.prems by linarith
  show ?case
  proof (cases "length ?F < nat N")
    case True
    then have F': "frame_times ?pm' = ?F @ [t - lt]"
      using Cons.prems(1) over by (simp add: tick_warm)
    have len': "length (frame_times ?pm') \<le> nat N" using True F' by simp
    from Cons.IH [OF lt' ws' Cons.prems(3) len'] F'
    show ?thesis by simp
  next
    case False
    then have full: "length ?F = nat N" using Cons.prems by simp
    have F': "frame_times ?pm' = tl (?F @ [t - lt])"
      using Cons.prems(1) over False by (simp add: tick_warm)
    have len': "length (frame_times ?pm') \<le> nat N" using full F' by simp
    have "drop (length (tl (?F @ [t - lt]) @ gaps (t # ts)) - nat N)
            (tl (?F @ [t - lt]) @ gaps (t # ts))
        = drop (length (?F @ gaps (lt # t # ts)) - nat N) (?F @ gaps (lt # t # ts))"
      using full by (cases ?F) (simp_all add: drop_Cons')
    with Cons.IH [OF lt' ws' Cons.prems(3) len'] F'
    show ?thesis by simp
  qed
qed

lemma ticks_init:
  assumes "0 \<le> N"
  shows "frame_times (ticks ts (PerformanceMonitor_init N))
           = drop (length (gaps ts) - nat N) (gaps ts)"
proof (cases ts)
  case Nil
  then show ?thesis by (simp add: PerformanceMonitor_init_def)
next
  case (Cons t ts')
  have "tick t (PerformanceMonitor_init N)
          = \<lparr>window_size = N, frame_times = [], last_time = Some t\<rparr>"
    by (simp add: tick_def PerformanceMonitor_init_def)
  then show ?thesis
    using ticks_warm [of "\<lparr>window_size = N, frame_times = [], last_time = Some t\<rparr>" t N ts']
          assms Cons
    by simp
qed

text \<open>
  Claim C6. For every window size \<open>N\<close> (a size: \<open>0 \<le> N\<close>): a tick on a cold monitor records
  only the time stamp and appends no sample; a tick on a warm monitor appends exactly one
  sample, the time elapsed since the previous tick, and drops the oldest sample when the
  window would overflow; the stored sequence never exceeds length \<open>N\<close>. Over a whole run of
  ticks from a new monitor the stored samples are the last \<open>N\<close> of the gaps between
  consecutive ticks, oldest first.
\<close>

theorem tick_rolling_window:
  assumes "0 \<le> N"
  shows "(last_time pm = None \<longrightarrow> tick t pm = pm\<lparr>last_time := Some t\<rparr>)
    \<and> (last_time pm = Some lt \<and> window_size pm = N \<and> length (frame_times pm) \<le> nat N \<longrightarrow>
          frame_times (tick t pm)
            = (if length (frame_times pm) < nat N then frame_times pm @ [t - lt]
               else tl (frame_times pm @ [t - lt]))
          \<and> length (frame_times (tick t pm)) \<le> nat N
          \<and> last_time (tick t pm) = Some t)
    \<and> frame_times (tick t (PerformanceMonitor_init N)) = []
    \<and> frame_times (ticks ts (PerformanceMonitor_init N))
         = drop (length (gaps ts) - nat N) (gaps ts)
    \<and> length (frame_times (ticks ts (PerformanceMonitor_init N))) \<le> nat N"
proof -
  have cold: "last_time pm = None \<longrightarrow> tick t pm = pm\<lparr>last_time := Some t\<rparr>"
    by (simp add: tick_cold)
  have warm: "last_time pm = Some lt \<and> window_size pm = N \<and> length (frame_times pm) \<le> nat N \<longrightarrow>
          frame_times (tick t pm)
            = (if length (frame_times pm) < nat N then frame_times pm @ [t - lt]
               else tl (frame_times pm @ [t - lt]))
          \<and> length (frame_times (tick t pm)) \<le> nat N
          \<and> last_time (tick t pm) = Some t"
  proof (intro impI, elim conjE)
    assume h: "last_time pm = Some lt" "window_size pm = N" "length (frame_times pm) \<le> nat N"
    have over: "(int (length (frame_times pm)) + 1 > window_size pm)
                  = (\<not> length (frame_times pm) < nat N)"
      using h assms by linarith
    show "frame_times (tick t pm)
            = (if length (frame_times pm) < nat N then frame_times pm @ [t - lt]
               else tl (frame_times pm @ [t - lt]))
          \<and> length (frame_times (tick t pm)) \<le> nat N
          \<and> last_time (tick t pm) = Some t"
      using h(1,3) over by (simp add: tick_warm)
  qed
  have first: "frame_times (tick t (PerformanceMonitor_init N)) = []"
    by (simp add: tick_def PerformanceMonitor_init_def)
  have run: "frame_times (ticks ts (PerformanceMonitor_init N))
               = drop (length (gaps ts) - nat N) (gaps ts)"
    using assms by (rule ticks_init)
  have bound: "length (frame_times (ticks ts (PerformanceMonitor_init N))) \<le> nat N"
    unfolding run by simp
  show ?thesis using cold warm first run bound by blast
qed

theorem tick_rolling_window_witness:
  "(0::int) \<le> 3
   \<and> last_time \<lparr>window_size = 3, frame_times = [1/100, 1/50, 3/100], last_time = Some (3/50)\<rparr>
       = Some (3/50)
   \<and> frame_times (tick (1/10)
        \<lparr>window_size = 3, frame_times = [1/100, 1/50, 3/100], last_time = Some (3/50)\<rparr>)
       = [1/50, 3/100, 1/25]
   \<and> last_time (PerformanceMonitor_init 3) = None
   \<and> tick 0 (PerformanceMonitor_init 3) = \<lparr>window_size = 3, frame_times = [], last_time = Some 0\<rparr>
   \<and> frame_times (ticks [0, 1/100, 3/100, 3/50, 1/10] (PerformanceMonitor_init 3))
       = [1/50, 3/100, 1/25]"
  using tick_rolling_window [of 3
          "\<lparr>window_size = 3, frame_times = [1/100, 1/50, 3/100], last_time = Some (3/50)\<rparr>"
          "1/10" "3/50" "[0, 1/100, 3/100, 3/50, 1/10]"]
        tick_rolling_window [of 3 "PerformanceMonitor_init 3" 0 0 "[]"]
  by (simp add: PerformanceMonitor_init_def)

subsection \<open>The getters\<close>

text \<open>
  Claim C7, as the code has it. \<open>get_fps\<close> and \<open>get_frame_time_ms\<close> return \<open>0\<close> when no
  sample is stored. With samples stored, \<open>get_frame_time_ms\<close> returns the arithmetic mean
  times 1000, and \<open>get_fps\<close> returns the reciprocal of the mean when the mean is strictly
  positive and \<open>0\<close> when it is not. With window size 3 and recorded gaps of 10, 20, 30 and
  40 ms the stored samples are the last three gaps, the mean is 30 ms and the rate is
  \<open>100/3\<close>, about 33.3 frames per second.
\<close>

theorem get_fps_frame_time_mean:
  "(frame_times pm = [] \<longrightarrow> get_fps pm = Inr 0 \<and> get_frame_time_ms pm = Inr 0)
   \<and> (frame_times pm \<noteq> [] \<longrightarrow>
        get_frame_time_ms pm = Inr (mean_frame_time pm * 1000)
        \<and> get_fps pm = (if mean_frame_time pm > 0 then Inr (1 / mean_frame_time pm) else Inr 0))
   \<and> frame_times (ticks [0, 1/100, 3/100, 3/50, 1/10] (PerformanceMonitor_init 3))
       = [1/50, 3/100, 1/25]
   \<and> get_frame_time_ms (ticks [0, 1/100, 3/100, 3/50, 1/10] (PerformanceMonitor_init 3)) = Inr 30
   \<and> get_fps (ticks [0, 1/100, 3/100, 3/50, 1/10] (PerformanceMonitor_init 3)) = Inr (100/3)
   \<and> (333/10 :: real) < 100/3 \<and> (100/3 :: real) < 334/10"
proof -
  have run: "ticks [0, 1/100, 3/100, 3/50, 1/10] (PerformanceMonitor_init 3)
      = \<lparr>window_size = 3, frame_times = [1/50, 3/100, 1/25], last_time = Some (1/10)\<rparr>"
    by (simp add: tick_def PerformanceMonitor_init_def Let_def)
  have getters: "(frame_times pm = [] \<longrightarrow> get_fps pm = Inr 0 \<and> get_frame_time_ms pm = Inr 0)
   \<and> (frame_times pm \<noteq> [] \<longrightarrow>
        get_frame_time_ms pm = Inr (mean_frame_time pm * 1000)
        \<and> get_fps pm = (if mean_frame_time pm > 0 then Inr (1 / mean_frame_time pm) else Inr 0))"
    by (auto simp: get_fps_def get_frame_time_ms_def py_truediv_def mean_frame_time_def)
  have ms: "get_frame_time_ms \<lparr>window_size = 3, frame_times = [1/50, 3/100, 1/25],
                               last_time = Some (1/10)\<rparr> = Inr 30"
    by (simp add: get_frame_time_ms_def py_truediv_def)
  have fps: "get_fps \<lparr>window_size = 3, frame_times = [1/50, 3/100, 1/25],
                      last_time = Some (1/10)\<rparr> = Inr (100/3)"
    by (simp add: get_fps_def py_truediv_def)
  show ?thesis using getters ms fps unfolding run by simp
qed

theorem get_fps_frame_time_mean_witness:
  "frame_times (PerformanceMonitor_init 3) = []
   \<and> get_fps (PerformanceMonitor_init 3) = Inr 0
   \<and> get_frame_time_ms (PerformanceMonitor_init 3) = Inr 0
   \<and> frame_times \<lparr>window_size = 3, frame_times = [1/50, 3/100, 1/25], last_time = Some (1/10)\<rparr>
       \<noteq> []
   \<and> mean_frame_time \<lparr>window_size = 3, frame_times = [1/50, 3/100, 1/25],
                       last_time = Some (1/10)\<rparr> = 3/100
   \<and> get_frame_time_ms \<lparr>window_size = 3, frame_times = [1/50, 3/100, 1/25],
                         last_time = Some (1/10)\<rparr> = Inr 30
   \<and> get_fps \<lparr>window_size = 3, frame_times = [1/50, 3/100, 1/25],
               last_time = Some (1/10)\<rparr> = Inr (100/3)"
  using get_fps_frame_time_mean [of "PerformanceMonitor_init 3"]
        get_fps_frame_time_mean [of "\<lparr>window_size = 3, frame_times = [1/50, 3/100, 1/25],
                                     last_time = Some (1/10)\<rparr>"]
  by (simp add: PerformanceMonitor_init_def mean_frame_time_def)

text \<open>
  The claim as written promises the reciprocal of the mean whenever samples are stored.
  Two ticks at the same clock reading store the single sample \<open>0\<close>: the mean is \<open>0\<close>, its
  reciprocal does not exist (\<open>1.0 / 0.0\<close> raises), and \<open>get_fps\<close> returns \<open>0\<close>.
\<close>

theorem get_fps_reciprocal_counterexample:
  "frame_times (ticks [1, 1] (PerformanceMonitor_init 3)) = [0]
   \<and> frame_times (ticks [1, 1] (PerformanceMonitor_init 3)) \<noteq> []
   \<and> mean_frame_time (ticks [1, 1] (PerformanceMonitor_init 3)) = 0
   \<and> py_truediv 1 (mean_frame_time (ticks [1, 1] (PerformanceMonitor_init 3)))
       = Inl ZeroDivisionError
   \<and> get_fps (ticks [1, 1] (PerformanceMonitor_init 3)) = Inr 0
   \<and> get_fps (ticks [1, 1] (PerformanceMonitor_init 3))
       \<noteq> py_truediv 1 (mean_frame_time (ticks [1, 1] (PerformanceMonitor_init 3)))"
proof -
  have run: "ticks [1, 1] (PerformanceMonitor_init 3)
      = \<lparr>window_size = 3, frame_times = [0], last_time = Some 1\<rparr>"
    by (simp add: tick_def PerformanceMonitor_init_def Let_def)
  show ?thesis
    unfolding run by (simp add: get_fps_def py_truediv_def mean_frame_time_def)
qed


text \<open>
  Claim C10. \<open>get_fps\<close> never raises \<open>ZeroDivisionError\<close>: with samples stored it returns
  \<open>1.0 / mean\<close> when the mean is strictly positive and \<open>0\<close> otherwise, the division by the
  mean is defined whenever it is reached, and with all samples zero the result is \<open>0\<close>.
\<close>

theorem get_fps_total:
  "(\<exists>v. get_fps pm = Inr v)
   \<and> (frame_times pm \<noteq> [] \<longrightarrow>
        get_fps pm = (if mean_frame_time pm > 0 then py_truediv 1 (mean_frame_time pm) else Inr 0))
   \<and> (mean_frame_time pm > 0 \<longrightarrow>
        py_truediv 1 (mean_frame_time pm) = Inr (1 / mean_frame_time pm))
   \<and> (frame_times pm \<noteq> [] \<and> (\<forall>x \<in> set (frame_times pm). x = 0) \<longrightarrow> get_fps pm = Inr 0)"
proof -
  have zero: "(\<forall>x \<in> set xs. x = 0) \<Longrightarrow> sum_list xs = 0" for xs :: "real list"
    by (induction xs) auto
  show ?thesis
    by (auto simp: get_fps_def py_truediv_def mean_frame_time_def zero)
qed

theorem get_fps_total_witness:
  "frame_times \<lparr>window_size = 100, frame_times = [0, 0], last_time = Some 5\<rparr> \<noteq> []
   \<and> set (frame_times \<lparr>window_size = 100, frame_times = [0, 0], last_time = Some 5\<rparr>) = {0}
   \<and> get_fps \<lparr>window_size = 100, frame_times = [0, 0], last_time = Some 5\<rparr> = Inr 0
   \<and> mean_frame_time \<lparr>window_size = 100, frame_times = [1/50, 3/50], last_time = Some 5\<rparr> > 0
   \<and> get_fps \<lparr>window_size = 100, frame_times = [1/50, 3/50], last_time = Some 5\<rparr> = Inr 25"
  using get_fps_total [of "\<lparr>window_size = 100, frame_times = [0, 0], last_time = Some 5\<rparr>"]
        get_fps_total [of "\<lparr>window_size = 100, frame_times = [1/50, 3/50], last_time = Some 5\<rparr>"]
  by (simp add: mean_frame_time_def py_truediv_def)

section \<open>Properties of ScreenCapture\<close>

text \<open>
  Claim C2. For an absent bounding box and for every degenerate one (\<open>right \<le> left\<close> or
  \<open>bottom \<le> top\<close>), \<open>capture\<close> returns \<open>None\<close> and leaves both the object (cached handles,
  stored box, stored dimensions, initialized flag) and the operating system (no native call
  is recorded, no handle acquired) as they were.
\<close>

theorem capture_degenerate_noop:
  "capture ok None st = (Return None, st)
   \<and> (r \<le> l \<or> b \<le> t \<longrightarrow> capture ok (Some (l, t, r, b)) st = (Return None, st))"
  by (auto simp: capture_def ret_def Let_def)

theorem capture_degenerate_noop_witness:
  "((5::int) \<le> 5 \<or> (9::int) \<le> 2)
   \<and> capture (\<lambda>n c. True) (Some (5, 2, 5, 9))
        (\<lparr>hwnd = 0, hwindc = Some 1, srcdc = Some 2, memdc = Some 3, bmp = Some 4,
          initialized = True, last_bbox = Some (0, 0, 100, 50), last_width = 100,
          last_height = 50\<rparr>, \<lparr>calls = [], live = {1, 2, 3, 4}\<rparr>)
     = (Return None,
        (\<lparr>hwnd = 0, hwindc = Some 1, srcdc = Some 2, memdc = Some 3, bmp = Some 4,
          initialized = True, last_bbox = Some (0, 0, 100, 50), last_width = 100,
          last_height = 50\<rparr>, \<lparr>calls = [], live = {1, 2, 3, 4}\<rparr>))"
  using capture_degenerate_noop [of "\<lambda>n c. True" _ 5 5 9 2]
  by simp

subsection \<open>What the methods do, step by step\<close>

lemmas prog_defs = ret_def raise_def then_do_def try_except_def read_def assign_def native_def if_held_def

lemma cleanup_attempt:
  "cleanup ok (s, w) = (Return (), (s\<lparr>initialized := False\<rparr>, snd (attempt ok (release_calls s) w)))"
  by (cases "srcdc s"; cases "memdc s"; cases "hwindc s"; cases "bmp s")
     (simp_all add: cleanup_def prog_defs release_calls_def os_call_def Let_def)

lemma release_ok: "releases_succeed ok \<Longrightarrow> is_release c \<Longrightarrow> ok n c"
  by (simp add: releases_succeed_def)

lemma attempt_releases:
  assumes "releases_succeed ok"
  shows "attempt ok (release_calls s) w
           = (True, \<lparr>calls = calls w @ succeeded (release_calls s), live = live w - held s\<rparr>)"
  by (cases "srcdc s"; cases "memdc s"; cases "hwindc s"; cases "bmp s")
     (auto simp: release_calls_def os_call_def Let_def succeeded_def held_def release_ok [OF assms])

lemma all_succeed_releases: "all_succeed ok \<Longrightarrow> releases_succeed ok"
  by (simp add: all_succeed_def releases_succeed_def)

lemma cleanup_releases:
  assumes "releases_succeed ok"
  shows "cleanup ok (s, w)
           = (Return (), (s\<lparr>initialized := False\<rparr>,
                \<lparr>calls = calls w @ succeeded (release_calls s), live = live w - held s\<rparr>))"
  by (simp add: cleanup_attempt attempt_releases [OF assms])

lemma initialize_dc_succeeds:
  assumes "all_succeed ok"
  shows "initialize_dc ok width height (s, w)
           = (let n = length (calls w) in
              (Return True,
               (s\<lparr>hwindc := Some n, srcdc := Some (n + 1), memdc := Some (n + 2),
                   bmp := Some (n + 3), initialized := True, last_width := width,
                   last_height := height\<rparr>,
                \<lparr>calls = calls w @ succeeded (initialize_calls (hwnd s) n width height),
                  live = live w \<union> {n, n + 1, n + 2, n + 3}\<rparr>)))"
  using assms
  by (auto simp: initialize_dc_def prog_defs os_call_def Let_def all_succeed_def
                 initialize_calls_def succeeded_def)

lemma grab_succeeds:
  assumes "all_succeed ok" "memdc s = Some m" "srcdc s = Some sd" "bmp s = Some b"
  shows "grab ok l t (r - l) (b' - t) (s, w)
           = (Return (Some (Frame (b' - t) (r - l))),
              (s, \<lparr>calls = calls w @ succeeded (grab_calls m sd b (l, t, r, b')), live = live w\<rparr>))"
  using assms
  by (simp add: grab_def prog_defs os_call_def Let_def all_succeed_def grab_calls_def succeeded_def)


lemma capture_reuse:
  assumes "all_succeed ok" "l < r" "t < b" "session_for s (l, t, r, b)"
          "memdc s = Some m" "srcdc s = Some sd" "bmp s = Some bm"
  shows "capture ok (Some (l, t, r, b)) (s, w)
           = (Return (Some (Frame (b - t) (r - l))),
              (s, \<lparr>calls = calls w @ succeeded (grab_calls m sd bm (l, t, r, b)), live = live w\<rparr>))"
proof -
  have g: "grab ok l t (r - l) (b - t) (s, w)
           = (Return (Some (Frame (b - t) (r - l))),
              (s, \<lparr>calls = calls w @ succeeded (grab_calls m sd bm (l, t, r, b)), live = live w\<rparr>))"
    using assms by (simp add: grab_succeeds)
  show ?thesis
    using assms(2,3,4) g
    by (simp add: capture_def Let_def session_for_def then_do_def read_def ret_def try_except_def)
qed

lemma capture_rebuild:
  assumes "all_succeed ok" "l < r" "t < b" "\<not> session_for s (l, t, r, b)"
  shows "capture ok (Some (l, t, r, b)) (s, w)
           = (let n = length (calls w) + length (release_calls s) in
              (Return (Some (Frame (b - t) (r - l))),
               (s\<lparr>last_bbox := Some (l, t, r, b), hwindc := Some n, srcdc := Some (n + 1),
                   memdc := Some (n + 2), bmp := Some (n + 3), initialized := True,
                   last_width := r - l, last_height := b - t\<rparr>,
                \<lparr>calls = calls w @ succeeded (release_calls s)
                           @ succeeded (initialize_calls (hwnd s) n (r - l) (b - t))
                           @ succeeded (grab_calls (n + 2) (n + 1) (n + 3) (l, t, r, b)),
                  live = (live w - held s) \<union> {n, n + 1, n + 2, n + 3}\<rparr>)))"
proof -
  let ?n = "length (calls w) + length (release_calls s)"
  let ?s1 = "s\<lparr>initialized := False, last_bbox := Some (l, t, r, b)\<rparr>"
  let ?w1 = "\<lparr>calls = calls w @ succeeded (release_calls s), live = live w - held s\<rparr>"
  let ?s2 = "?s1\<lparr>hwindc := Some ?n, srcdc := Some (?n + 1), memdc := Some (?n + 2),
                   bmp := Some (?n + 3), initialized := True, last_width := r - l,
                   last_height := b - t\<rparr>"
  let ?w2 = "\<lparr>calls = calls ?w1 @ succeeded (initialize_calls (hwnd s) ?n (r - l) (b - t)),
              live = live ?w1 \<union> {?n, ?n + 1, ?n + 2, ?n + 3}\<rparr>"
  have c: "cleanup ok (s, w) = (Return (), (s\<lparr>initialized := False\<rparr>, ?w1))"
    using assms(1) by (simp add: cleanup_releases all_succeed_releases)
  have i: "initialize_dc ok (r - l) (b - t) (?s1, ?w1) = (Return True, (?s2, ?w2))"
    using assms(1) by (simp add: initialize_dc_succeeds Let_def succeeded_def)
  have g: "grab ok l t (r - l) (b - t) (?s2, ?w2)
           = (Return (Some (Frame (b - t) (r - l))),
              (?s2, \<lparr>calls = calls ?w2 @ succeeded (grab_calls (?n + 2) (?n + 1) (?n + 3) (l, t, r, b)),
                     live = live ?w2\<rparr>))"
    using assms(1) by (simp add: grab_succeeds)
  have cond: "last_bbox s \<noteq> Some (l, t, r, b) \<or> \<not> initialized s \<or>
                r - l \<noteq> last_width s \<or> b - t \<noteq> last_height s"
    using assms(4) by (auto simp: session_for_def)
  have "capture ok (Some (l, t, r, b)) (s, w)
          = (Return (Some (Frame (b - t) (r - l))),
              (?s2, \<lparr>calls = calls ?w2 @ succeeded (grab_calls (?n + 2) (?n + 1) (?n + 3) (l, t, r, b)),
                     live = live ?w2\<rparr>))"
    using assms(2,3) cond c i g
    by (simp add: capture_def Let_def then_do_def read_def ret_def try_except_def assign_def)
  then show ?thesis by (simp add: Let_def)
qed


lemma captures_reuse:
  assumes "all_succeed ok" "l < r" "t < b" "session_for s (l, t, r, b)"
          "memdc s = Some m" "srcdc s = Some sd" "bmp s = Some bm"
  shows "captures ok (replicate k (Some (l, t, r, b))) (s, w)
           = (replicate k (Return (Some (Frame (b - t) (r - l)))),
              (s, \<lparr>calls = calls w @ concat (replicate k (succeeded (grab_calls m sd bm (l, t, r, b)))),
                   live = live w\<rparr>))"
proof (induction k arbitrary: w)
  case 0
  show ?case by simp
next
  case (Suc k)
  show ?case
    by (simp add: capture_reuse [OF assms] Suc.IH)
qed

lemma filter_grabs:
  "filter (\<lambda>cr. is_GetWindowDC (fst cr))
     (concat (replicate k (succeeded (grab_calls m sd bm box)))) = []"
  by (induction k) (auto simp: succeeded_def grab_calls_def split: prod.splits)

lemma filter_release_calls:
  "filter (\<lambda>cr. is_GetWindowDC (fst cr)) (succeeded (release_calls s)) = []"
  by (auto simp: succeeded_def release_calls_def split: option.splits)

lemma filter_initialize_calls:
  "length (filter (\<lambda>cr. is_GetWindowDC (fst cr)) (succeeded (initialize_calls hw n wd ht))) = 1"
  by (simp add: succeeded_def initialize_calls_def)

lemma filter_grab_calls:
  "filter (\<lambda>cr. is_GetWindowDC (fst cr)) (succeeded (grab_calls m sd bm box)) = []"
  by (auto simp: succeeded_def grab_calls_def split: prod.splits)

lemma capture_same_box:
  assumes ok: "all_succeed ok" and box: "l < r" "t < b" and wf: "well_formed s"
  shows "fst (captures ok (replicate k (Some (l, t, r, b))) (s, w))
           = replicate k (Return (Some (Frame (b - t) (r - l))))
     \<and> init_runs (snd (snd (captures ok (replicate k (Some (l, t, r, b))) (s, w))))
         = (if session_for s (l, t, r, b) \<or> k = 0 then init_runs w else init_runs w + 1)
     \<and> (session_for s (l, t, r, b) \<longrightarrow>
          fst (snd (captures ok (replicate k (Some (l, t, r, b))) (s, w))) = s
          \<and> live (snd (snd (captures ok (replicate k (Some (l, t, r, b))) (s, w)))) = live w)
     \<and> (0 < k \<longrightarrow>
          session_for (fst (snd (captures ok (replicate k (Some (l, t, r, b))) (s, w)))) (l, t, r, b)
          \<and> well_formed (fst (snd (captures ok (replicate k (Some (l, t, r, b))) (s, w)))))"
proof (cases "session_for s (l, t, r, b)")
  case True
  then have "initialized s" by (simp add: session_for_def)
  with wf obtain m sd bm where h: "memdc s = Some m" "srcdc s = Some sd" "bmp s = Some bm"
    by (auto simp: well_formed_def)
  show ?thesis
    using True wf
    by (simp add: captures_reuse [OF ok box True h] filter_grabs init_runs_def)
next
  case False
  show ?thesis
  proof (cases k)
    case 0
    then show ?thesis by simp
  next
    case (Suc j)
    define n where "n = length (calls w) + length (release_calls s)"
    define s1 where "s1 = s\<lparr>last_bbox := Some (l, t, r, b), hwindc := Some n, srcdc := Some (n + 1),
                   memdc := Some (n + 2), bmp := Some (n + 3), initialized := True,
                   last_width := r - l, last_height := b - t\<rparr>"
    define w1 where "w1 = \<lparr>calls = calls w @ succeeded (release_calls s)
                           @ succeeded (initialize_calls (hwnd s) n (r - l) (b - t))
                           @ succeeded (grab_calls (n + 2) (n + 1) (n + 3) (l, t, r, b)),
                  live = (live w - held s) \<union> {n, n + 1, n + 2, n + 3}\<rparr>"
    have first: "capture ok (Some (l, t, r, b)) (s, w)
                   = (Return (Some (Frame (b - t) (r - l))), (s1, w1))"
      unfolding s1_def w1_def n_def
      by (simp only: capture_rebuild [OF ok box False] Let_def)
    have s1: "session_for s1 (l, t, r, b)" by (simp add: session_for_def s1_def)
    have h: "memdc s1 = Some (n + 2)" "srcdc s1 = Some (n + 1)" "bmp s1 = Some (n + 3)"
      by (simp_all add: s1_def)
    have wf1: "well_formed s1" by (simp add: well_formed_def s1_def)
    have rest: "captures ok (replicate j (Some (l, t, r, b))) (s1, w1)
           = (replicate j (Return (Some (Frame (b - t) (r - l)))),
              (s1, \<lparr>calls = calls w1 @ concat (replicate j
                        (succeeded (grab_calls (n + 2) (n + 1) (n + 3) (l, t, r, b)))),
                   live = live w1\<rparr>))"
      by (rule captures_reuse [OF ok box s1 h])
    have runs: "init_runs \<lparr>calls = calls w1 @ concat (replicate j
                        (succeeded (grab_calls (n + 2) (n + 1) (n + 3) (l, t, r, b)))),
                   live = live w1\<rparr> = init_runs w + 1"
      by (simp add: init_runs_def w1_def filter_grabs filter_release_calls
                    filter_initialize_calls filter_grab_calls)
    show ?thesis
      using False Suc s1 wf1 runs
      by (simp add: first rest)
  qed
qed

subsection \<open>No method raises\<close>










lemma closes_never_raise: "fst (closes ok k st) = replicate k (Return ())"
proof (induction k arbitrary: st)
  case 0
  show ?case by simp
next
  case (Suc k)
  obtain s w where st: "st = (s, w)" by (cases st)
  show ?case
    using Suc.IH [of "(s\<lparr>initialized := False\<rparr>, snd (attempt ok (release_calls s) w))"]
    by (simp add: st close_def cleanup_attempt split_beta)
qed

subsection \<open>The object owns what is outstanding\<close>

lemma grab_keeps:
  "fst (snd (grab ok l t wd ht (s, w))) = s
   \<and> live (snd (snd (grab ok l t wd ht (s, w)))) = live w"
  by (cases "memdc s"; cases "srcdc s"; cases "bmp s")
     (simp_all add: grab_def prog_defs os_call_def Let_def)

lemma grab_result:
  obtains res w' where "grab ok l t wd ht (s, w) = (res, (s, w'))" "live w' = live w"
proof -
  obtain res s' w' where g: "grab ok l t wd ht (s, w) = (res, (s', w'))"
    by (cases "grab ok l t wd ht (s, w)") auto
  with grab_keeps [of ok l t wd ht s w] have "s' = s" "live w' = live w" by simp_all
  with g that show thesis by blast
qed

lemma initialize_dc_owned:
  assumes "releases_succeed ok" "live w = {}"
  shows "owned (snd (initialize_dc ok wd ht (s, w)))
     \<and> last_bbox (fst (snd (initialize_dc ok wd ht (s, w)))) = last_bbox s
     \<and> (fst (initialize_dc ok wd ht (s, w)) = Return True \<or>
          fst (initialize_dc ok wd ht (s, w)) = Return False)
     \<and> (fst (initialize_dc ok wd ht (s, w)) = Return False) =
          (\<not> initialized (fst (snd (initialize_dc ok wd ht (s, w)))))"
  using assms(2)
  by (simp add: initialize_dc_def prog_defs os_call_def Let_def cleanup_releases [OF assms(1)]
                owned_def held_def)


lemma cleanup_owned:
  assumes "releases_succeed ok" "live w \<subseteq> held s"
  shows "live (snd (snd (cleanup ok (s, w)))) = {}" "owned (snd (cleanup ok (s, w)))"
  using assms(2) by (auto simp: cleanup_releases [OF assms(1)] owned_def held_def)

lemma grab_phase_owned:
  assumes "releases_succeed ok" "owned (s, w)"
  shows "owned (snd (try_except (grab ok l t wd ht) (then_do (cleanup ok) (\<lambda>_. ret None)) (s, w)))"
proof -
  obtain res w' where g: "grab ok l t wd ht (s, w) = (res, (s, w'))" and lv: "live w' = live w"
    by (rule grab_result)
  show ?thesis
  proof (cases res)
    case (Return a)
    with g lv assms(2) show ?thesis by (simp add: try_except_def owned_def)
  next
    case Raise
    with g lv assms(2) show ?thesis
      by (auto simp: try_except_def then_do_def ret_def cleanup_releases [OF assms(1)]
                     owned_def held_def)
  qed
qed

lemma capture_owned:
  assumes rel: "releases_succeed ok" and own: "owned (s, w)"
  shows "owned (snd (capture ok box (s, w)))"
proof (cases box)
  case None
  with own show ?thesis by (simp add: capture_def ret_def)
next
  case (Some q)
  obtain l t r b where q: "q = (l, t, r, b)" by (cases q) auto
  show ?thesis
  proof (cases "r - l \<le> 0 \<or> b - t \<le> 0")
    case True
    with own show ?thesis by (auto simp: capture_def Some q ret_def Let_def)
  next
    case valid: False
    show ?thesis
    proof (cases "last_bbox s \<noteq> Some (l, t, r, b) \<or> \<not> initialized s \<or>
                   r - l \<noteq> last_width s \<or> b - t \<noteq> last_height s")
      case False
      then have "capture ok box (s, w)
        = try_except (grab ok l t (r - l) (b - t)) (then_do (cleanup ok) (\<lambda>_. ret None)) (s, w)"
        using valid by (simp add: capture_def Some q Let_def then_do_def read_def ret_def)
      then show ?thesis using grab_phase_owned [OF rel own] by simp
    next
      case True
      define s1 where "s1 = s\<lparr>initialized := False, last_bbox := Some (l, t, r, b)\<rparr>"
      define w1 where "w1 = \<lparr>calls = calls w @ succeeded (release_calls s), live = live w - held s\<rparr>"
      have l1: "live w1 = {}" using own by (auto simp: w1_def owned_def)
      obtain res s2 w2 where i: "initialize_dc ok (r - l) (b - t) (s1, w1) = (res, (s2, w2))"
        by (cases "initialize_dc ok (r - l) (b - t) (s1, w1)") auto
      from initialize_dc_owned [OF rel l1, of "r - l" "b - t" s1] i
      have o2: "owned (s2, w2)" and res: "res = Return True \<or> res = Return False"
        by auto
      have step: "capture ok box (s, w)
        = (if res = Return False then (Return None, (s2, w2))
           else try_except (grab ok l t (r - l) (b - t)) (then_do (cleanup ok) (\<lambda>_. ret None))
                  (s2, w2))"
        using valid True res i
        by (auto simp: capture_def Some q Let_def then_do_def read_def ret_def assign_def
                       cleanup_releases [OF rel] s1_def w1_def)
      show ?thesis
        using o2 grab_phase_owned [OF rel o2] by (simp add: step)
    qed
  qed
qed

lemma close_owned:
  assumes "releases_succeed ok" "owned (s, w)"
  shows "owned (snd (close ok (s, w)))" "live (snd (snd (close ok (s, w)))) = {}"
  using assms(2) cleanup_owned [OF assms(1), of w s] by (simp_all add: close_def owned_def)

lemma run_owned:
  assumes "releases_succeed ok"
  shows "owned st \<Longrightarrow> owned (run ok ms st)"
proof (induction ms arbitrary: st)
  case Nil
  then show ?case by simp
next
  case (Cons m ms)
  obtain s w where st: "st = (s, w)" by (cases st)
  show ?case
  proof (cases m)
    case (Capture box)
    with Cons st capture_owned [OF assms, of s w box] show ?thesis by simp
  next
    case Close
    with Cons st close_owned(1) [OF assms, of s w] show ?thesis by simp
  qed
qed

lemma attempt_releases_live:
  "live (snd (attempt ok (release_calls s) w)) \<subseteq> live w"
  by (cases "srcdc s"; cases "memdc s"; cases "hwindc s"; cases "bmp s")
     (auto simp: release_calls_def os_call_def Let_def)

lemma closes_live: "live (snd (snd (closes ok k st))) \<subseteq> live (snd st)"
proof (induction k arbitrary: st)
  case 0
  show ?case by simp
next
  case (Suc k)
  obtain s w where st: "st = (s, w)" by (cases st)
  show ?case
    using Suc.IH [of "(s\<lparr>initialized := False\<rparr>, snd (attempt ok (release_calls s) w))"]
          attempt_releases_live [of ok s w]
    by (auto simp: st close_def cleanup_attempt split_beta)
qed


subsection \<open>A concrete object\<close>

text \<open>
  \<open>new_capture\<close> is what \<open>__init__\<close> builds on a system with nothing outstanding, and
  \<open>first_capture\<close> holds the handles 1 to 4 (window DC, source DC, memory DC, bitmap),
  acquired in that order.
\<close>

lemma new_capture_init:
  "ScreenCapture_init (\<lambda>n c. True) \<lparr>calls = [], live = {}\<rparr>
     = (Return (fst new_capture), snd new_capture)"
  by (simp add: ScreenCapture_init_def os_call_def new_capture_def)

lemma first_capture_eq:
  "first_capture =
     (\<lparr>hwnd = 0, hwindc = Some 1, srcdc = Some 2, memdc = Some 3, bmp = Some 4,
       initialized = True, last_bbox = Some (0, 0, 100, 50), last_width = 100,
       last_height = 50\<rparr>,
      \<lparr>calls = [(GetDesktopWindow, True), (GetWindowDC 0, True), (CreateDCFromHandle 1, True),
                (CreateCompatibleDC 2, True), (CreateBitmap, True),
                (CreateCompatibleBitmap 4 2 100 50, True), (SelectObject 3 4, True),
                (BitBlt 3 100 50 2 0 0, True), (GetBitmapBits 4, True), (Reshape 50 100, True),
                (CvtColor, True)],
        live = {1, 2, 3, 4}\<rparr>)"
proof -
  have ok: "all_succeed (\<lambda>n c. True)" by (simp add: all_succeed_def)
  have ns: "\<not> session_for (fst new_capture) (0, 0, 100, 50)"
    by (simp add: session_for_def new_capture_def)
  have "0 < (100::int)" "0 < (50::int)" by simp_all
  from capture_rebuild [OF ok this ns, of "snd new_capture"]
  have "capture (\<lambda>n c. True) (Some (0, 0, 100, 50)) new_capture
        = (Return (Some (Frame 50 100)),
     (\<lparr>hwnd = 0, hwindc = Some 1, srcdc = Some 2, memdc = Some 3, bmp = Some 4,
       initialized = True, last_bbox = Some (0, 0, 100, 50), last_width = 100,
       last_height = 50\<rparr>,
      \<lparr>calls = [(GetDesktopWindow, True), (GetWindowDC 0, True), (CreateDCFromHandle 1, True),
                (CreateCompatibleDC 2, True), (CreateBitmap, True),
                (CreateCompatibleBitmap 4 2 100 50, True), (SelectObject 3 4, True),
                (BitBlt 3 100 50 2 0 0, True), (GetBitmapBits 4, True), (Reshape 50 100, True),
                (CvtColor, True)],
        live = {1, 2, 3, 4}\<rparr>))"
    by (auto simp: Let_def new_capture_def release_calls_def
                  held_def succeeded_def initialize_calls_def grab_calls_def)
  then show ?thesis by (simp add: first_capture_def)
qed

subsection \<open>Reuse of the cached session\<close>

text \<open>
  Claim C1. Let every native call succeed and let the box be valid (\<open>l < r\<close>, \<open>t < b\<close>).
  For every run of \<open>k\<close> captures of that box, from any object that holds its handles
  while initialized: every call returns a frame; \<open>_initialize_dc\<close> runs at most once over the
  whole run (not at all when the object already has a session for the box, exactly once
  otherwise); when a session for the box exists the run leaves the object as it was and
  acquires and releases nothing, and after the first call a session for the box exists, so
  every later call reuses it. When the stored box or dimensions differ (in particular when
  the session is for another box), one capture issues exactly the release calls of one
  \<open>_cleanup\<close>, then the calls of one \<open>_initialize_dc\<close>, then the blit and the readback.
\<close>

theorem capture_reuses_session:
  assumes "all_succeed ok" "l < r" "t < b" "well_formed s"
  shows "fst (captures ok (replicate k (Some (l, t, r, b))) (s, w))
           = replicate k (Return (Some (Frame (b - t) (r - l))))
     \<and> init_runs (snd (snd (captures ok (replicate k (Some (l, t, r, b))) (s, w))))
         \<le> init_runs w + 1
     \<and> init_runs (snd (snd (captures ok (replicate k (Some (l, t, r, b))) (s, w))))
         = (if session_for s (l, t, r, b) \<or> k = 0 then init_runs w else init_runs w + 1)
     \<and> (session_for s (l, t, r, b) \<longrightarrow>
          fst (snd (captures ok (replicate k (Some (l, t, r, b))) (s, w))) = s
          \<and> live (snd (snd (captures ok (replicate k (Some (l, t, r, b))) (s, w)))) = live w)
     \<and> (0 < k \<longrightarrow>
          session_for (fst (snd (captures ok (replicate k (Some (l, t, r, b))) (s, w)))) (l, t, r, b)
          \<and> well_formed (fst (snd (captures ok (replicate k (Some (l, t, r, b))) (s, w)))))
     \<and> (session_for s (l', t', r', b') \<and> (l', t', r', b') \<noteq> (l, t, r, b) \<longrightarrow>
          \<not> session_for s (l, t, r, b))
     \<and> (\<not> session_for s (l, t, r, b) \<longrightarrow>
          capture ok (Some (l, t, r, b)) (s, w)
           = (let n = length (calls w) + length (release_calls s) in
              (Return (Some (Frame (b - t) (r - l))),
               (s\<lparr>last_bbox := Some (l, t, r, b), hwindc := Some n, srcdc := Some (n + 1),
                   memdc := Some (n + 2), bmp := Some (n + 3), initialized := True,
                   last_width := r - l, last_height := b - t\<rparr>,
                \<lparr>calls = calls w @ succeeded (release_calls s)
                           @ succeeded (initialize_calls (hwnd s) n (r - l) (b - t))
                           @ succeeded (grab_calls (n + 2) (n + 1) (n + 3) (l, t, r, b)),
                  live = (live w - held s) \<union> {n, n + 1, n + 2, n + 3}\<rparr>)))
          \<and> init_runs (snd (snd (capture ok (Some (l, t, r, b)) (s, w)))) = init_runs w + 1)"
proof -
  note same = capture_same_box [OF assms, of k w]
  have other: "session_for s (l', t', r', b') \<and> (l', t', r', b') \<noteq> (l, t, r, b) \<longrightarrow>
          \<not> session_for s (l, t, r, b)"
    by (auto simp: session_for_def)
  have rebuild: "\<not> session_for s (l, t, r, b) \<longrightarrow>
          capture ok (Some (l, t, r, b)) (s, w)
           = (let n = length (calls w) + length (release_calls s) in
              (Return (Some (Frame (b - t) (r - l))),
               (s\<lparr>last_bbox := Some (l, t, r, b), hwindc := Some n, srcdc := Some (n + 1),
                   memdc := Some (n + 2), bmp := Some (n + 3), initialized := True,
                   last_width := r - l, last_height := b - t\<rparr>,
                \<lparr>calls = calls w @ succeeded (release_calls s)
                           @ succeeded (initialize_calls (hwnd s) n (r - l) (b - t))
                           @ succeeded (grab_calls (n + 2) (n + 1) (n + 3) (l, t, r, b)),
                  live = (live w - held s) \<union> {n, n + 1, n + 2, n + 3}\<rparr>)))
          \<and> init_runs (snd (snd (capture ok (Some (l, t, r, b)) (s, w)))) = init_runs w + 1"
  proof
    assume ns: "\<not> session_for s (l, t, r, b)"
    note cr = capture_rebuild [OF assms(1,2,3) ns, of w]
    have "init_runs (snd (snd (capture ok (Some (l, t, r, b)) (s, w)))) = init_runs w + 1"
      unfolding cr
      by (simp add: Let_def init_runs_def filter_release_calls filter_initialize_calls
                    filter_grab_calls)
    with cr show "capture ok (Some (l, t, r, b)) (s, w)
           = (let n = length (calls w) + length (release_calls s) in
              (Return (Some (Frame (b - t) (r - l))),
               (s\<lparr>last_bbox := Some (l, t, r, b), hwindc := Some n, srcdc := Some (n + 1),
                   memdc := Some (n + 2), bmp := Some (n + 3), initialized := True,
                   last_width := r - l, last_height := b - t\<rparr>,
                \<lparr>calls = calls w @ succeeded (release_calls s)
                           @ succeeded (initialize_calls (hwnd s) n (r - l) (b - t))
                           @ succeeded (grab_calls (n + 2) (n + 1) (n + 3) (l, t, r, b)),
                  live = (live w - held s) \<union> {n, n + 1, n + 2, n + 3}\<rparr>)))
          \<and> init_runs (snd (snd (capture ok (Some (l, t, r, b)) (s, w)))) = init_runs w + 1"
      by blast
  qed
  have le: "init_runs (snd (snd (captures ok (replicate k (Some (l, t, r, b))) (s, w))))
         \<le> init_runs w + 1"
    using same by (simp split: if_splits)
  show ?thesis using same other rebuild le by blast
qed

theorem capture_reuses_session_witness:
  "all_succeed (\<lambda>n c. True) \<and> well_formed (fst new_capture)
   \<and> fst (captures (\<lambda>n c. True) (replicate 2 (Some (0, 0, 100, 50))) new_capture)
       = replicate 2 (Return (Some (Frame 50 100)))
   \<and> init_runs (snd new_capture) = 0
   \<and> init_runs (snd (snd (captures (\<lambda>n c. True) (replicate 2 (Some (0, 0, 100, 50))) new_capture)))
       = 1
   \<and> session_for (fst first_capture) (0, 0, 100, 50) \<and> well_formed (fst first_capture)
   \<and> fst (snd (captures (\<lambda>n c. True) (replicate 2 (Some (0, 0, 100, 50))) first_capture))
       = fst first_capture
   \<and> init_runs (snd first_capture) = 1
   \<and> init_runs (snd (snd (capture (\<lambda>n c. True) (Some (10, 10, 60, 40)) first_capture))) = 2"
proof -
  have ok: "all_succeed (\<lambda>n c. True)" by (simp add: all_succeed_def)
  have wf0: "well_formed (fst new_capture)" by (simp add: well_formed_def new_capture_def)
  have wf1: "well_formed (fst first_capture)" by (simp add: well_formed_def first_capture_eq)
  have s1: "session_for (fst first_capture) (0, 0, 100, 50)"
    by (simp add: session_for_def first_capture_eq)
  have ns0: "\<not> session_for (fst new_capture) (0, 0, 100, 50)"
    by (simp add: session_for_def new_capture_def)
  have ns1: "\<not> session_for (fst first_capture) (10, 10, 60, 40)"
    by (simp add: session_for_def first_capture_eq)
  have r0: "init_runs (snd new_capture) = 0" by (simp add: init_runs_def new_capture_def)
  have r1: "init_runs (snd first_capture) = 1" by (simp add: init_runs_def first_capture_eq)
  have b1: "(0::int) < 100" "(0::int) < 50" and b2: "(10::int) < 60" "(10::int) < 40" by simp_all
  note T0 = capture_reuses_session [OF ok b1 wf0, of 2 "snd new_capture"]
  note T1 = capture_reuses_session [OF ok b1 wf1, of 2 "snd first_capture"]
  note T2 = capture_reuses_session [OF ok b2 wf1, of 0 "snd first_capture"]
  have A: "fst (captures (\<lambda>n c. True) (replicate 2 (Some (0, 0, 100, 50))) new_capture)
       = replicate 2 (Return (Some (Frame 50 100)))"
    using T0 [THEN conjunct1] by simp
  have B: "init_runs (snd (snd (captures (\<lambda>n c. True) (replicate 2 (Some (0, 0, 100, 50)))
             new_capture))) = 1"
    using T0 [THEN conjunct2, THEN conjunct2, THEN conjunct1] ns0 r0 by simp
  have C: "fst (snd (captures (\<lambda>n c. True) (replicate 2 (Some (0, 0, 100, 50))) first_capture))
       = fst first_capture"
    using T1 [THEN conjunct2, THEN conjunct2, THEN conjunct2, THEN conjunct1] s1 by simp
  have "init_runs (snd (snd (capture (\<lambda>n c. True) (Some (10, 10, 60, 40))
           (fst first_capture, snd first_capture)))) = init_runs (snd first_capture) + 1"
    using T2 [THEN conjunct2, THEN conjunct2, THEN conjunct2, THEN conjunct2, THEN conjunct2,
              THEN conjunct2] ns1 by blast
  then have D: "init_runs (snd (snd (capture (\<lambda>n c. True) (Some (10, 10, 60, 40))
           first_capture))) = 2"
    using r1 by simp
  show ?thesis using ok wf0 wf1 s1 r0 r1 A B C D by blast
qed

subsection \<open>The order of release\<close>

text \<open>
  Claim C3, as the code has it. \<open>_cleanup\<close> issues the release calls of the fields that hold
  a handle in the fixed order source DC, memory DC, window DC, bitmap (the window DC, acquired
  first, is released third: this is not the reverse of the order of acquisition), stops at
  the first release call that raises, never raises itself and resets the initialized flag.
  When every release call succeeds, every handle the fields hold is released.
\<close>

theorem cleanup_release_order:
  "cleanup ok (s, w)
     = (Return (), (s\<lparr>initialized := False\<rparr>, snd (attempt ok (release_calls s) w)))
   \<and> (hwindc s = Some wd \<and> srcdc s = Some sd \<and> memdc s = Some md \<and> bmp s = Some bm \<longrightarrow>
        release_calls s
          = [DeleteDC sd, DeleteDC md, ReleaseDC (hwnd s) wd, GetHandle bm, DeleteObject bm]
        \<and> released_order (succeeded (release_calls s)) = [sd, md, wd, bm])
   \<and> (releases_succeed ok \<longrightarrow>
        calls (snd (snd (cleanup ok (s, w)))) = calls w @ succeeded (release_calls s)
        \<and> live (snd (snd (cleanup ok (s, w)))) = live w - held s)"
proof -
  have a: "cleanup ok (s, w)
     = (Return (), (s\<lparr>initialized := False\<rparr>, snd (attempt ok (release_calls s) w)))"
    by (rule cleanup_attempt)
  have b: "hwindc s = Some wd \<and> srcdc s = Some sd \<and> memdc s = Some md \<and> bmp s = Some bm \<longrightarrow>
        release_calls s
          = [DeleteDC sd, DeleteDC md, ReleaseDC (hwnd s) wd, GetHandle bm, DeleteObject bm]
        \<and> released_order (succeeded (release_calls s)) = [sd, md, wd, bm]"
    by (simp add: release_calls_def succeeded_def)
  have c: "releases_succeed ok \<longrightarrow>
        calls (snd (snd (cleanup ok (s, w)))) = calls w @ succeeded (release_calls s)
        \<and> live (snd (snd (cleanup ok (s, w)))) = live w - held s"
    by (simp add: cleanup_releases)
  show ?thesis using a b c by blast
qed

theorem cleanup_release_order_witness:
  "hwindc (fst first_capture) = Some 1 \<and> srcdc (fst first_capture) = Some 2
   \<and> memdc (fst first_capture) = Some 3 \<and> bmp (fst first_capture) = Some 4
   \<and> releases_succeed (\<lambda>n c. True)
   \<and> release_calls (fst first_capture)
       = [DeleteDC 2, DeleteDC 3, ReleaseDC 0 1, GetHandle 4, DeleteObject 4]
   \<and> released_order (succeeded (release_calls (fst first_capture))) = [2, 3, 1, 4]
   \<and> live (snd first_capture) = {1, 2, 3, 4}
   \<and> held (fst first_capture) = {1, 2, 3, 4}
   \<and> live (snd (snd (cleanup (\<lambda>n c. True) first_capture))) = {}"
proof -
  have h: "hwindc (fst first_capture) = Some 1" "srcdc (fst first_capture) = Some 2"
          "memdc (fst first_capture) = Some 3" "bmp (fst first_capture) = Some 4"
          "hwnd (fst first_capture) = 0"
    by (simp_all add: first_capture_eq)
  have rs: "releases_succeed (\<lambda>n c. True)" by (simp add: releases_succeed_def)
  have lv: "live (snd first_capture) = {1, 2, 3, 4}" by (simp add: first_capture_eq)
  have hd: "held (fst first_capture) = {1, 2, 3, 4}" by (auto simp: first_capture_eq held_def)
  note T = cleanup_release_order [of "\<lambda>n c. True" "fst first_capture" "snd first_capture" 1 2 3 4]
  have A: "release_calls (fst first_capture)
       = [DeleteDC 2, DeleteDC 3, ReleaseDC 0 1, GetHandle 4, DeleteObject 4]
       \<and> released_order (succeeded (release_calls (fst first_capture))) = [2, 3, 1, 4]"
    using T [THEN conjunct2, THEN conjunct1] h by (simp add: succeeded_def)
  have "live (snd (snd (cleanup (\<lambda>n c. True) (fst first_capture, snd first_capture))))
          = live (snd first_capture) - held (fst first_capture)"
    using T [THEN conjunct2, THEN conjunct2] rs by blast
  then have B: "live (snd (snd (cleanup (\<lambda>n c. True) first_capture))) = {}"
    by (simp add: lv hd)
  show ?thesis using h rs lv hd A B by blast
qed

text \<open>
  The claim as written fails on the object \<open>first_capture\<close>. The handles were acquired in
  the order 1, 2, 3, 4 and a \<open>close\<close> whose release calls all succeed releases them in the
  order 2, 3, 1, 4, which is not the reverse. And when the release of the memory DC (handle
  3) raises, \<open>close\<close> releases the source DC only: the handles 1, 3 and 4 stay outstanding.
\<close>

theorem cleanup_order_counterexample:
  "acquired_order 0 (calls (snd first_capture)) = [1, 2, 3, 4]
   \<and> released_order (calls (snd (snd (close (\<lambda>n c. True) first_capture)))) = [2, 3, 1, 4]
   \<and> released_order (calls (snd (snd (close (\<lambda>n c. True) first_capture))))
        \<noteq> rev (acquired_order 0 (calls (snd first_capture)))
   \<and> live (snd first_capture) = {1, 2, 3, 4}
   \<and> live (snd (snd (close (\<lambda>n c. c \<noteq> DeleteDC 3) first_capture))) = {1, 3, 4}"
  by (auto simp: first_capture_eq close_def cleanup_attempt release_calls_def os_call_def)

subsection \<open>\<open>close\<close>\<close>

text \<open>
  Claim C4, as the code has it. For every object, every outcome of the native calls and
  every number of repeated \<open>close()\<close> calls, no \<open>close()\<close> raises, and no \<open>close()\<close> adds
  an outstanding handle. When the release calls succeed, then in every state reached from an
  object that owns what is outstanding (a new object does) by any run of \<open>capture\<close> and
  \<open>close\<close> calls, after one \<open>close()\<close> and after any further number of them no native
  resource is outstanding.
\<close>

theorem close_never_raises:
  "fst (closes ok k st) = replicate k (Return ())
   \<and> live (snd (snd (closes ok k st))) \<subseteq> live (snd st)
   \<and> (releases_succeed ok \<and> owned st \<longrightarrow>
        owned (run ok ms st)
        \<and> live (snd (snd (close ok (run ok ms st)))) = {}
        \<and> (0 < k \<longrightarrow> live (snd (snd (closes ok k (run ok ms st)))) = {}))
   \<and> (ScreenCapture_init ok w = (Return s, w') \<and> live w = {} \<longrightarrow> owned (s, w'))"
proof -
  have a: "fst (closes ok k st) = replicate k (Return ())" by (rule closes_never_raise)
  have b: "live (snd (snd (closes ok k st))) \<subseteq> live (snd st)" by (rule closes_live)
  have c: "releases_succeed ok \<and> owned st \<longrightarrow>
        owned (run ok ms st)
        \<and> live (snd (snd (close ok (run ok ms st)))) = {}
        \<and> (0 < k \<longrightarrow> live (snd (snd (closes ok k (run ok ms st)))) = {})"
  proof (intro impI, elim conjE)
    assume rel: "releases_succeed ok" and own: "owned st"
    obtain s1 w1 where st1: "run ok ms st = (s1, w1)" by (cases "run ok ms st")
    have o1: "owned (s1, w1)" using run_owned [OF rel own, of ms] st1 by simp
    have e: "live (snd (snd (close ok (s1, w1)))) = {}" by (rule close_owned(2) [OF rel o1])
    have f: "0 < k \<longrightarrow> live (snd (snd (closes ok k (s1, w1)))) = {}"
    proof
      assume "0 < k"
      then obtain j where k: "k = Suc j" by (cases k) auto
      have "live (snd (snd (closes ok j (snd (close ok (s1, w1))))))
              \<subseteq> live (snd (snd (close ok (s1, w1))))"
        by (rule closes_live)
      with e show "live (snd (snd (closes ok k (s1, w1)))) = {}"
        by (simp add: k split_beta)
    qed
    show "owned (run ok ms st)
        \<and> live (snd (snd (close ok (run ok ms st)))) = {}
        \<and> (0 < k \<longrightarrow> live (snd (snd (closes ok k (run ok ms st)))) = {})"
      using o1 e f by (simp add: st1)
  qed
  have d: "ScreenCapture_init ok w = (Return s, w') \<and> live w = {} \<longrightarrow> owned (s, w')"
    by (auto simp: ScreenCapture_init_def os_call_def Let_def owned_def held_def
             split: if_splits)
  show ?thesis using a b c d by blast
qed

theorem close_never_raises_witness:
  "releases_succeed (\<lambda>n c. True) \<and> owned new_capture
   \<and> ScreenCapture_init (\<lambda>n c. True) \<lparr>calls = [], live = {}\<rparr>
       = (Return (fst new_capture), snd new_capture)
   \<and> run (\<lambda>n c. True) [Capture (Some (0, 0, 100, 50))] new_capture = first_capture
   \<and> live (snd first_capture) = {1, 2, 3, 4}
   \<and> fst (closes (\<lambda>n c. True) 2 first_capture) = replicate 2 (Return ())
   \<and> live (snd (snd (close (\<lambda>n c. True) first_capture))) = {}
   \<and> live (snd (snd (closes (\<lambda>n c. True) 2 first_capture))) = {}
   \<and> live (snd (snd (closes (\<lambda>n c. True) 2 new_capture))) = {}"
proof -
  have rs: "releases_succeed (\<lambda>n c. True)" by (simp add: releases_succeed_def)
  have own: "owned new_capture" by (simp add: owned_def new_capture_def)
  have rn: "run (\<lambda>n c. True) [Capture (Some (0, 0, 100, 50))] new_capture = first_capture"
    by (simp add: first_capture_def)
  have rn0: "run (\<lambda>n c. True) [] new_capture = new_capture" by simp
  have lv: "live (snd first_capture) = {1, 2, 3, 4}" by (simp add: first_capture_eq)
  note T = close_never_raises [of "\<lambda>n c. True" 2 first_capture]
  note U = close_never_raises [of "\<lambda>n c. True" 2 new_capture "[Capture (Some (0, 0, 100, 50))]"]
  note V = close_never_raises [of "\<lambda>n c. True" 2 new_capture "[]"]
  have A: "fst (closes (\<lambda>n c. True) 2 first_capture) = replicate 2 (Return ())"
    using T [THEN conjunct1] .
  have B: "live (snd (snd (close (\<lambda>n c. True) first_capture))) = {}
           \<and> live (snd (snd (closes (\<lambda>n c. True) 2 first_capture))) = {}"
    using U [THEN conjunct2, THEN conjunct2, THEN conjunct1] rs own unfolding rn by simp
  have C: "live (snd (snd (closes (\<lambda>n c. True) 2 new_capture))) = {}"
    using V [THEN conjunct2, THEN conjunct2, THEN conjunct1] rs own unfolding rn0 by simp
  show ?thesis using rs own new_capture_init rn lv A B C by blast
qed

text \<open>
  The claim as written promises zero outstanding resources after \<open>close()\<close> on every
  object. On \<open>first_capture\<close>, when the release of the source DC (handle 2) raises, the
  \<open>try\<close> block of \<open>_cleanup\<close> is left at once: two \<open>close()\<close> calls return without an
  error and all four handles are still outstanding.
\<close>

theorem close_leak_counterexample:
  "live (snd first_capture) = {1, 2, 3, 4}
   \<and> fst (closes (\<lambda>n c. c \<noteq> DeleteDC 2) (Suc (Suc 0)) first_capture) = [Return (), Return ()]
   \<and> live (snd (snd (closes (\<lambda>n c. c \<noteq> DeleteDC 2) (Suc (Suc 0)) first_capture))) = {1, 2, 3, 4}"
  by (auto simp: first_capture_eq close_def cleanup_attempt release_calls_def os_call_def)

subsection \<open>Failure of the blit or of the readback\<close>



text \<open>
  Neither \<open>_cleanup\<close> nor the \<open>try\<close> block of \<open>capture\<close> issues \<open>GetWindowDC\<close>, and
  \<open>_initialize_dc\<close> issues it exactly once, whatever the outcome of the native calls.
\<close>

lemma init_runs_attempt:
  "\<forall>c \<in> set cs. \<not> is_GetWindowDC c \<Longrightarrow> init_runs (snd (attempt ok cs w)) = init_runs w"
  by (induction cs arbitrary: w) (auto simp: os_call_def Let_def init_runs_def)

lemma release_calls_no_init: "\<forall>c \<in> set (release_calls s). \<not> is_GetWindowDC c"
  by (auto simp: release_calls_def split: option.splits)

lemma init_runs_cleanup: "init_runs (snd (snd (cleanup ok (s, w)))) = init_runs w"
  by (simp add: cleanup_attempt init_runs_attempt release_calls_no_init)








subsection \<open>Clamped rectangles as capture boxes\<close>

text \<open>
  Claim C9. For every input rectangle and every screen resolution, \<open>clamp_rect_to_screen\<close>
  returns \<open>left \<ge> 0\<close>, \<open>top \<ge> 0\<close>, \<open>right \<le> screen width\<close> and
  \<open>bottom \<le> screen height\<close>. The result need not be a valid capture box: the rectangle
  \<open>(-50, 0, -10, 10)\<close>, wholly left of \<open>x = 0\<close>, is clamped to a rectangle with
  \<open>right < left\<close> (to \<open>(0, 0, -10, 10)\<close> on the fallback resolution), and \<open>capture\<close> on it
  returns \<open>None\<close>.
\<close>

theorem clamp_rect_to_screen_bounds:
  "(case clamp_rect_to_screen metrics (l, t, r, b) of
      (l', t', r', b') \<Rightarrow> 0 \<le> l' \<and> 0 \<le> t' \<and> r' \<le> fst (get_screen_resolution metrics)
                          \<and> b' \<le> snd (get_screen_resolution metrics))
   \<and> (case clamp_rect_to_screen metrics (-50, 0, -10, 10) of (l', t', r', b') \<Rightarrow> r' < l')
   \<and> clamp_rect_to_screen (\<lambda>i. None) (-50, 0, -10, 10) = (0, 0, -10, 10)
   \<and> capture ok (Some (clamp_rect_to_screen metrics (-50, 0, -10, 10))) st = (Return None, st)"
  by (auto simp: capture_def ret_def Let_def get_screen_resolution_def
           split: prod.splits option.splits)

theorem clamp_rect_to_screen_bounds_witness:
  "clamp_rect_to_screen (\<lambda>i. if i = 0 then Some 2560 else Some 1440) (-20, 700, 3000, 2000)
     = (0, 700, 2560, 1440)
   \<and> clamp_rect_to_screen (\<lambda>i. if i = 0 then Some 2560 else Some 1440) (-50, 0, -10, 10)
     = (0, 0, -10, 10)
   \<and> capture (\<lambda>n c. True) (Some (0, 0, -10, 10))
        (\<lparr>hwnd = 0, hwindc = None, srcdc = None, memdc = None, bmp = None,
          initialized = False, last_bbox = None, last_width = 0, last_height = 0\<rparr>,
         \<lparr>calls = [(GetDesktopWindow, True)], live = {}\<rparr>)
     = (Return None,
        (\<lparr>hwnd = 0, hwindc = None, srcdc = None, memdc = None, bmp = None,
          initialized = False, last_bbox = None, last_width = 0, last_height = 0\<rparr>,
         \<lparr>calls = [(GetDesktopWindow, True)], live = {}\<rparr>))"
  using clamp_rect_to_screen_bounds
          [where metrics = "\<lambda>i. if i = 0 then Some 2560 else Some 1440" and ok = "\<lambda>n c. True"
             and l = "-20" and t = 700 and r = 3000 and b = 2000
             and st = "(\<lparr>hwnd = 0, hwindc = None, srcdc = None, memdc = None, bmp = None,
                          initialized = False, last_bbox = None, last_width = 0,
                          last_height = 0\<rparr>,
                        \<lparr>calls = [(GetDesktopWindow, True)], live = {}\<rparr>)"]
  by (simp add: get_screen_resolution_def)

end
